theory Spec2Isabelle
  imports Main "HOL-Library.Sublist"
begin

section \<open>Data model\<close>

text \<open>
  A cell of a table is either the missing-marker or a value. The value type is left
  open (\<open>'v\<close>): the stages only compare cells for equality and test them for the
  missing-marker.
\<close>

datatype 'v cell = NA | Val 'v

text \<open>
  A data frame: the column labels in order, and the rows in order. Every row carries
  its index label (the row number the loader gave it), which survives row removal,
  and its cells in column order. \<open>len\<close> is the number of rows, \<open>shape\<close> the pair
  (rows, columns).
\<close>

record 'v table =
  columns :: "string list"
  rows :: "(nat \<times> 'v cell list) list"

definition len :: "'v table \<Rightarrow> nat" where
  "len data = length (rows data)"

definition shape :: "'v table \<Rightarrow> nat \<times> nat" where
  "shape data = (len data, length (columns data))"

text \<open>
  The invariant of a data frame: the column labels are pairwise different (the loader
  renames repeated header fields) and every row has one cell per column.
\<close>

definition wf_table :: "'v table \<Rightarrow> bool" where
  "wf_table data \<longleftrightarrow>
     distinct (columns data) \<and>
     list_all (\<lambda>r. length (snd r) = length (columns data)) (rows data)"

section \<open>Cleaner\<close>

text \<open>
  \<open>data.dropna(how='all')\<close>: a row is kept when at least one of its cells is not
  the missing-marker.
\<close>

definition notna :: "'v cell \<Rightarrow> bool" where
  "notna c \<longleftrightarrow> c \<noteq> NA"

definition dropna_all :: "'v table \<Rightarrow> 'v table" where
  "dropna_all data = data\<lparr>rows := filter (\<lambda>r. list_ex notna (snd r)) (rows data)\<rparr>"

text \<open>
  \<open>data.duplicated()\<close> (keep the first): one flag per row, true when the cells of
  the row have been seen in an earlier row; missing-markers compare equal.
  \<open>data.drop_duplicates()\<close> keeps the rows whose flag is false. (A frame without
  columns is returned by pandas as it is; in the cleaner such a frame has lost all its
  rows to \<open>dropna\<close> before, so the two agree there.)
\<close>

fun duplicated_from :: "'v cell list list \<Rightarrow> (nat \<times> 'v cell list) list \<Rightarrow> bool list" where
  "duplicated_from seen [] = []"
| "duplicated_from seen (r # rs) = (snd r \<in> set seen) # duplicated_from (snd r # seen) rs"

definition duplicated :: "'v table \<Rightarrow> bool list" where
  "duplicated data = duplicated_from [] (rows data)"

definition drop_duplicates :: "'v table \<Rightarrow> 'v table" where
  "drop_duplicates data =
     data\<lparr>rows := map fst (filter (\<lambda>p. \<not> snd p) (zip (rows data) (duplicated data)))\<rparr>"

text \<open>The cleaner's transformation of the table: the two removals, in this order.\<close>

definition clean :: "'v table \<Rightarrow> 'v table" where
  "clean data = drop_duplicates (dropna_all data)"




section \<open>Feature selector\<close>

text \<open>
  \<open>data[col]\<close>: a label that names exactly one column selects that column as a
  series; a label that names several columns selects the data frame of these
  columns; a label that names no column raises KeyError.
\<close>

datatype exn = ValueError | KeyError | TypeError | AttributeError | OSError | SystemExit nat

datatype 'v selection = Series "'v cell list" | Frame "'v table"

fun index_of :: "'a \<Rightarrow> 'a list \<Rightarrow> nat" where
  "index_of x [] = 0"
| "index_of x (y # ys) = (if x = y then 0 else Suc (index_of x ys))"

definition keep_columns :: "(string \<Rightarrow> bool) \<Rightarrow> 'v table \<Rightarrow> 'v table" where
  "keep_columns p data =
     data\<lparr>columns := filter p (columns data),
          rows := map (\<lambda>r. (fst r, map snd (filter (\<lambda>q. p (fst q)) (zip (columns data) (snd r)))))
                    (rows data)\<rparr>"

definition series_of :: "'v table \<Rightarrow> string \<Rightarrow> 'v cell list" where
  "series_of data col = map (\<lambda>r. snd r ! index_of col (columns data)) (rows data)"

definition getitem :: "'v table \<Rightarrow> string \<Rightarrow> exn + 'v selection" where
  "getitem data col =
     (if col \<notin> set (columns data) then Inl KeyError
      else if count_list (columns data) col = 1 then Inr (Series (series_of data col))
      else Inr (Frame (keep_columns (\<lambda>c. c = col) data)))"

text \<open>
  \<open>series.nunique()\<close>: the number of different values, the missing-marker not
  counted.
\<close>

definition nunique :: "'v cell list \<Rightarrow> nat" where
  "nunique s = length (remdups (filter notna s))"

text \<open>
  \<open>data.drop(columns=labels)\<close>: every column whose label is listed goes; a listed
  label that names no column raises KeyError.
\<close>

definition drop_columns :: "'v table \<Rightarrow> string list \<Rightarrow> exn + 'v table" where
  "drop_columns data labels =
     (if \<not> set labels \<subseteq> set (columns data) then Inl KeyError
      else Inr (keep_columns (\<lambda>c. c \<notin> set labels) data))"

text \<open>
  The loop over \<open>data.columns\<close> that fills \<open>cols_to_drop\<close>. The test
  \<open>data[col].nunique() == len(data)\<close> is a truth value only when \<open>data[col]\<close> is a
  series; on a data frame the comparison is a series itself, whose truth value
  raises ValueError.
\<close>

fun mark_columns :: "'v table \<Rightarrow> string list \<Rightarrow> string list \<Rightarrow> exn + string list" where
  "mark_columns data [] cols_to_drop = Inr cols_to_drop"
| "mark_columns data (col # cols) cols_to_drop =
     (case getitem data col of
        Inl e \<Rightarrow> Inl e
      | Inr (Frame f) \<Rightarrow> Inl ValueError
      | Inr (Series s) \<Rightarrow>
          mark_columns data cols
            (if nunique s = len data then cols_to_drop @ [col] else cols_to_drop))"

definition select_features :: "'v table \<Rightarrow> exn + 'v table" where
  "select_features data =
     (case mark_columns data (columns data) [] of
        Inl e \<Rightarrow> Inl e
      | Inr cols_to_drop \<Rightarrow>
          if cols_to_drop \<noteq> [] then drop_columns data cols_to_drop else Inr data)"

text \<open>The selector's test on one column, for stating what it removes.\<close>

definition all_unique :: "'v table \<Rightarrow> string \<Rightarrow> bool" where
  "all_unique data col \<longleftrightarrow> nunique (series_of data col) = len data"

section \<open>Metadata bag, arrays and the outside world\<close>

text \<open>
  \<open>frame.values\<close> is a two-dimensional array (its column count kept apart, since an
  array without rows still has columns), \<open>series.values\<close> a one-dimensional one.

  A series has one dtype and its array holds its cells as they are. A frame may hold
  columns of several dtypes, and its array has one: numpy converts every cell to the
  common dtype of the frame (int64 beside float64 gives float64, so that the integer
  \<open>2^53 + 1\<close> becomes \<open>2^53\<close>). The conversion depends on the frame and is applied
  cell by cell; it is a parameter, \<open>cast\<close>, of which nothing is assumed.
\<close>

datatype 'v ndarray = Vector "'v cell list" | Matrix nat "'v cell list list"

fun array_shape :: "'v ndarray \<Rightarrow> nat list" where
  "array_shape (Vector xs) = [length xs]"
| "array_shape (Matrix n xss) = [length xss, n]"

definition frame_values :: "('v table \<Rightarrow> 'v cell \<Rightarrow> 'v cell) \<Rightarrow> 'v table \<Rightarrow> 'v ndarray" where
  "frame_values cast data =
     Matrix (length (columns data)) (map (map (cast data) \<circ> snd) (rows data))"

fun selection_values :: "('v table \<Rightarrow> 'v cell \<Rightarrow> 'v cell) \<Rightarrow> 'v selection \<Rightarrow> 'v ndarray" where
  "selection_values cast (Series s) = Vector s"
| "selection_values cast (Frame f) = frame_values cast f"

datatype 'v pyvalue =
    PStr string
  | PShape "nat \<times> nat"
  | PNames "string list"
  | PArray "'v ndarray"

type_synonym 'v context_dict = "string \<rightharpoonup> 'v pyvalue"

text \<open>
  An array file holds the value that was saved to it, or is damaged (cut short by a
  write that failed).
\<close>

datatype 'v npy_file = Saved "'v pyvalue" | Damaged

text \<open>
  The part of the outside world the pipeline touches, and the two library behaviours
  that are left open:
  \<^item> what \<open>pd.read_csv\<close> parses at each path (\<open>None\<close> where reading or parsing
    raises);
  \<^item> the array files, by path;
  \<^item> the paths at which \<open>np.save\<close> succeeds;
  \<^item> what a failed \<open>np.save\<close> leaves at its path, given what was there: nothing, the
    old file, or a damaged one;
  \<^item> the conversion of \<open>frame.values\<close> to the common dtype of a frame.
\<close>

record 'v world =
  csv_files :: "string \<Rightarrow> 'v table option"
  npy_files :: "string \<rightharpoonup> 'v npy_file"
  writable :: "string \<Rightarrow> bool"
  failed_write :: "string \<Rightarrow> 'v npy_file option \<Rightarrow> 'v npy_file option"
  values_cast :: "'v table \<Rightarrow> 'v cell \<Rightarrow> 'v cell"

text \<open>The world after a write to \<open>path\<close> that failed: only the file at \<open>path\<close> may differ.\<close>

definition failed_save :: "string \<Rightarrow> 'v world \<Rightarrow> 'v world" where
  "failed_save path w =
     w\<lparr>npy_files := (npy_files w)(path := failed_write w path (npy_files w path))\<rparr>"

text \<open>\<open>np.save(path, arr)\<close>: the world it leaves, and the exception when it fails.\<close>

definition np_save :: "string \<Rightarrow> 'v pyvalue \<Rightarrow> 'v world \<Rightarrow> 'v world \<times> (exn + unit)" where
  "np_save path arr w =
     (if writable w path then (w\<lparr>npy_files := (npy_files w)(path \<mapsto> Saved arr)\<rparr>, Inr ())
      else (failed_save path w, Inl OSError))"

text \<open>
  The state a handler works on: the context dictionary, mutated in place, and the
  world. A handler returns the state it leaves and either the exception it raises or
  the data it returns.
\<close>

record 'v state =
  ctx :: "'v context_dict"
  world :: "'v world"

type_synonym 'v handler =
  "'v table option \<Rightarrow> 'v state \<Rightarrow> 'v state \<times> (exn + 'v table option)"

text \<open>
  The text an f-string puts for a value. A string is put as it is. The text of any
  other value is left unspecified: \<open>process\<close> stores a string under
  \<open>output_dir\<close>, and nothing below depends on the text of another value.
\<close>

fun py_format :: "'v pyvalue \<Rightarrow> string" where
  "py_format (PStr s) = s"
| "py_format v = undefined"

section \<open>The five stages\<close>

definition loader_step :: "'v handler" where
  "loader_step data st =
     (case data of
        Some d \<Rightarrow> (st, Inr (Some d))
      | None \<Rightarrow>
          (case ctx st ''file_path'' of
             Some (PStr file_path) \<Rightarrow>
               (case csv_files (world st) file_path of
                  Some d \<Rightarrow>
                    (st\<lparr>ctx := (ctx st)(''original_shape'' \<mapsto> PShape (shape d))\<rparr>, Inr (Some d))
                | None \<Rightarrow> (st, Inl (SystemExit 1)))
           | _ \<Rightarrow> (st, Inl (SystemExit 1))))"

definition cleaner_step :: "'v handler" where
  "cleaner_step data st =
     (case data of
        None \<Rightarrow> (st, Inl TypeError)
      | Some d \<Rightarrow>
          (let d' = clean d
           in (st\<lparr>ctx := (ctx st)(''cleaned_shape'' \<mapsto> PShape (shape d'))\<rparr>, Inr (Some d'))))"

definition selector_step :: "'v handler" where
  "selector_step data st =
     (case data of
        None \<Rightarrow> (st, Inl AttributeError)
      | Some d \<Rightarrow>
          (case select_features d of
             Inl e \<Rightarrow> (st, Inl e)
           | Inr d' \<Rightarrow>
               (st\<lparr>ctx := (ctx st)(''selected_features'' \<mapsto> PNames (columns d'))\<rparr>,
                Inr (Some d'))))"

definition splitter_step :: "'v handler" where
  "splitter_step data st =
     (case data of
        None \<Rightarrow> (st, Inl AttributeError)
      | Some d \<Rightarrow>
          if length (columns d) < 2 then (st, Inl ValueError)
          else
            (let target_col = last (columns d)
             in case getitem d target_col of
                  Inl e \<Rightarrow> (st, Inl e)
                | Inr sel \<Rightarrow>
                    (case drop_columns d [target_col] of
                       Inl e \<Rightarrow> (st, Inl e)
                     | Inr f \<Rightarrow>
                         (st\<lparr>ctx := (ctx st)
                               (''X_data'' \<mapsto> PArray (frame_values (values_cast (world st)) f),
                                ''y_data'' \<mapsto>
                                  PArray (selection_values (values_cast (world st)) sel),
                                ''target_column'' \<mapsto> PStr target_col)\<rparr>,
                          Inr (Some d)))))"

definition saver_step :: "'v handler" where
  "saver_step data st =
     (let output_dir = (case ctx st ''output_dir'' of Some v \<Rightarrow> v | None \<Rightarrow> PStr ''.'')
      in case ctx st ''X_data'' of
           None \<Rightarrow> (st, Inl (SystemExit 1))
         | Some X \<Rightarrow>
             (case np_save (py_format output_dir @ ''/x_data.npy'') X (world st) of
                (w1, Inl e) \<Rightarrow> (st\<lparr>world := w1\<rparr>, Inl (SystemExit 1))
              | (w1, Inr u) \<Rightarrow>
                  (case ctx st ''y_data'' of
                     None \<Rightarrow> (st\<lparr>world := w1\<rparr>, Inl (SystemExit 1))
                   | Some y \<Rightarrow>
                       (case np_save (py_format output_dir @ ''/y_data.npy'') y w1 of
                          (w2, Inl e) \<Rightarrow> (st\<lparr>world := w2\<rparr>, Inl (SystemExit 1))
                        | (w2, Inr u) \<Rightarrow> (st\<lparr>world := w2\<rparr>, Inr data)))))"

section \<open>Chain and pipeline\<close>

text \<open>
  A chain of handlers linked by \<open>set_next\<close>: a handler does its own step and then
  hands the data to the base class, which calls the next handler, or returns the data
  when there is none. An exception leaves the chain at once.
\<close>

fun handle :: "'v handler list \<Rightarrow> 'v handler" where
  "handle [] data st = (st, Inr data)"
| "handle (h # next_handlers) data st =
     (case h data st of
        (st', Inl e) \<Rightarrow> (st', Inl e)
      | (st', Inr data') \<Rightarrow> handle next_handlers data' st')"

definition pipeline :: "'v handler list" where
  "pipeline = [loader_step, cleaner_step, selector_step, splitter_step, saver_step]"

definition initial_context :: "string \<Rightarrow> string \<Rightarrow> 'v context_dict" where
  "initial_context file_path output_dir =
     [''file_path'' \<mapsto> PStr file_path, ''output_dir'' \<mapsto> PStr output_dir]"

text \<open>
  \<open>process\<close> catches every exception of class \<open>Exception\<close> and exits with status 1;
  \<open>SystemExit\<close> is not of that class and passes through.
\<close>

fun is_Exception :: "exn \<Rightarrow> bool" where
  "is_Exception (SystemExit n) = False"
| "is_Exception e = True"

definition process :: "'v world \<Rightarrow> string \<Rightarrow> string \<Rightarrow> 'v state \<times> (exn + unit)" where
  "process w file_path output_dir =
     (case handle pipeline None \<lparr>ctx = initial_context file_path output_dir, world = w\<rparr> of
        (st, Inr data) \<Rightarrow> (st, Inr ())
      | (st, Inl e) \<Rightarrow> (st, Inl (if is_Exception e then SystemExit 1 else e)))"

text \<open>
  The exit status of the interpreter: 0 when \<open>process\<close> returns, the argument of
  \<open>sys.exit\<close> when \<open>SystemExit\<close> reaches the top, 1 for any other exception.
\<close>

fun exit_status :: "exn + unit \<Rightarrow> nat" where
  "exit_status (Inr u) = 0"
| "exit_status (Inl (SystemExit n)) = n"
| "exit_status (Inl e) = 1"

text \<open>The program: the world it leaves and its exit status.\<close>

definition main :: "'v world \<Rightarrow> string \<Rightarrow> 'v world \<times> nat" where
  "main w file_path =
     (case process w file_path ''.'' of (st, r) \<Rightarrow> (world st, exit_status r))"

text \<open>The context as each stage of a chain leaves it, in order.\<close>

fun contexts :: "'v handler list \<Rightarrow> 'v table option \<Rightarrow> 'v state \<Rightarrow> 'v context_dict list" where
  "contexts [] data st = []"
| "contexts (h # next_handlers) data st =
     (case h data st of
        (st', Inl e) \<Rightarrow> [ctx st']
      | (st', Inr data') \<Rightarrow> ctx st' # contexts next_handlers data' st')"

section \<open>Auxiliary functions\<close>

text \<open>
  The rows \<open>drop_duplicates\<close> keeps, as one recursion: a row stays when its cells
  are not among those seen.
\<close>

fun keep_first :: "'v cell list list \<Rightarrow> (nat \<times> 'v cell list) list \<Rightarrow> (nat \<times> 'v cell list) list" where
  "keep_first seen [] = []"
| "keep_first seen (r # rs) =
     (if snd r \<in> set seen then keep_first (snd r # seen) rs
      else r # keep_first (snd r # seen) rs)"


section \<open>Sample data\<close>

text \<open>
  A table of six rows and four columns with one empty row and one repeated row; after
  cleaning, \<open>id\<close> holds four different values, \<open>port\<close> a repeated one, \<open>bytes\<close>
  three different values and a missing-marker.
\<close>

definition sample_table :: "int table" where
  "sample_table =
     \<lparr>columns = [''id'', ''port'', ''bytes'', ''label''],
      rows = [(0, [Val 1, Val 80, Val 500, Val 0]),
              (1, [Val 2, Val 80, Val 600, Val 1]),
              (2, [NA, NA, NA, NA]),
              (3, [Val 2, Val 80, Val 600, Val 1]),
              (4, [Val 3, Val 443, NA, Val 0]),
              (5, [Val 4, Val 22, Val 700, Val 1])]\<rparr>"

definition selected_sample :: "int table" where
  "selected_sample =
     \<lparr>columns = [''port'', ''bytes'', ''label''],
      rows = [(0, [Val 80, Val 500, Val 0]),
              (1, [Val 80, Val 600, Val 1]),
              (4, [Val 443, NA, Val 0]),
              (5, [Val 22, Val 700, Val 1])]\<rparr>"


definition narrow_sample :: "int table" where
  "narrow_sample =
     \<lparr>columns = [''id'', ''label''],
      rows = [(0, [Val 1, Val 0]), (1, [Val 2, Val 0])]\<rparr>"

definition label_only_sample :: "int table" where
  "label_only_sample = \<lparr>columns = [''label''], rows = [(0, [Val 0]), (1, [Val 0])]\<rparr>"

text \<open>
  A world in which the feature file can be written and the target file cannot, a
  failed write leaves a damaged file, and the conversion to the common dtype rounds
  every number down to an even one.
\<close>

definition sample_world :: "int world" where
  "sample_world =
     \<lparr>csv_files = [''flows.csv'' \<mapsto> sample_table, ''narrow.csv'' \<mapsto> narrow_sample],
      npy_files = Map.empty,
      writable = (\<lambda>path. path = ''out/x_data.npy''),
      failed_write = (\<lambda>path old. Some Damaged),
      values_cast = (\<lambda>f c. case c of NA \<Rightarrow> NA | Val n \<Rightarrow> Val (2 * (n div 2)))\<rparr>"

section \<open>The cleaner: what it removes\<close>

lemma mask_keep_first:
  "map fst (filter (\<lambda>p. \<not> snd p) (zip rs (duplicated_from seen rs))) = keep_first seen rs"
  by (induction rs arbitrary: seen) simp_all

lemma rows_drop_duplicates: "rows (drop_duplicates data) = keep_first [] (rows data)"
  by (simp add: drop_duplicates_def duplicated_def mask_keep_first)

lemma rows_clean:
  "rows (clean data) = keep_first [] (filter (\<lambda>r. list_ex notna (snd r)) (rows data))"
  by (simp add: clean_def rows_drop_duplicates dropna_all_def)

lemma columns_clean: "columns (clean data) = columns data"
  by (simp add: clean_def drop_duplicates_def dropna_all_def)

lemma keep_first_subset: "set (keep_first seen rs) \<subseteq> set rs"
  by (induction rs arbitrary: seen) auto

lemma keep_first_length: "length (keep_first seen rs) \<le> length rs"
  by (induction rs arbitrary: seen) (auto simp: le_SucI)

lemma keep_first_fresh: "x \<in> set (keep_first seen rs) \<Longrightarrow> snd x \<notin> set seen"
proof (induction rs arbitrary: seen)
  case Nil
  then show ?case by simp
next
  case (Cons r rs)
  show ?case
  proof (cases "x \<in> set (keep_first (snd r # seen) rs)")
    case True
    from Cons.IH [OF True] show ?thesis by simp
  next
    case False
    with Cons.prems have "x = r" "snd r \<notin> set seen" by (auto split: if_splits)
    then show ?thesis by simp
  qed
qed

lemma keep_first_distinct: "distinct (map snd (keep_first seen rs))"
proof (induction rs arbitrary: seen)
  case Nil
  show ?case by simp
next
  case (Cons r rs)
  have "snd r \<notin> snd ` set (keep_first (snd r # seen) rs)"
    using keep_first_fresh [of _ "snd r # seen" rs] by fastforce
  with Cons show ?case by simp
qed

lemma keep_first_id:
  "distinct (map snd rs) \<Longrightarrow> snd ` set rs \<inter> set seen = {} \<Longrightarrow> keep_first seen rs = rs"
proof (induction rs arbitrary: seen)
  case Nil
  show ?case by simp
next
  case (Cons r rs)
  from Cons.prems have "snd ` set rs \<inter> set (snd r # seen) = {}" by auto
  with Cons show ?case by auto
qed

lemma keep_first_idem: "keep_first [] (keep_first [] rs) = keep_first [] rs"
  by (rule keep_first_id) (simp_all add: keep_first_distinct)







text \<open>
  C4. The cleaner never returns more rows than it was given, and cleaning a cleaned
  table changes nothing.
\<close>

theorem cleaner_shrinks_and_is_idempotent:
  "len (clean data) \<le> len data \<and> clean (clean data) = clean data"
proof
  show "len (clean data) \<le> len data"
    unfolding len_def rows_clean
    by (rule order_trans [OF keep_first_length]) simp
next
  let ?P = "\<lambda>r::nat \<times> 'a cell list. list_ex notna (snd r)"
  have "filter ?P (rows (clean data)) = rows (clean data)"
    unfolding rows_clean filter_id_conv using keep_first_subset by fastforce
  then have "rows (clean (clean data)) = rows (clean data)"
    by (simp add: rows_clean [of "clean data"]) (simp add: rows_clean keep_first_idem)
  then show "clean (clean data) = clean data"
    by (simp add: columns_clean table.equality clean_def drop_duplicates_def dropna_all_def)
qed

section \<open>The feature selector: which columns it removes\<close>

lemma count_list_distinct: "distinct xs \<Longrightarrow> x \<in> set xs \<Longrightarrow> count_list xs x = 1"
  by (induction xs) auto

lemma count_list_repeated: "\<not> distinct xs \<Longrightarrow> \<exists>x\<in>set xs. count_list xs x \<noteq> 1"
proof (induction xs)
  case Nil
  then show ?case by simp
next
  case (Cons a ys)
  show ?case
  proof (cases "a \<in> set ys")
    case True
    then have "count_list ys a \<noteq> 0" by (simp add: count_list_0_iff)
    then have "count_list (a # ys) a \<noteq> 1" by simp
    then show ?thesis by (meson list.set_intros(1))
  next
    case False
    with Cons.prems have "\<not> distinct ys" by simp
    with Cons.IH obtain x where x: "x \<in> set ys" "count_list ys x \<noteq> 1" by blast
    with False have "x \<noteq> a" by auto
    with x show ?thesis by auto
  qed
qed

lemma getitem_distinct:
  "distinct (columns data) \<Longrightarrow> col \<in> set (columns data) \<Longrightarrow>
   getitem data col = Inr (Series (series_of data col))"
  by (simp add: getitem_def count_list_distinct)

lemma mark_columns_distinct:
  "distinct (columns data) \<Longrightarrow> set cols \<subseteq> set (columns data) \<Longrightarrow>
   mark_columns data cols acc = Inr (acc @ filter (all_unique data) cols)"
  by (induction cols arbitrary: acc) (simp_all add: getitem_distinct all_unique_def)

lemma mark_columns_repeated:
  "set cols \<subseteq> set (columns data) \<Longrightarrow> \<exists>c\<in>set cols. count_list (columns data) c \<noteq> 1 \<Longrightarrow>
   mark_columns data cols acc = Inl ValueError"
proof (induction cols arbitrary: acc)
  case Nil
  then show ?case by simp
next
  case (Cons col cols)
  show ?case
  proof (cases "count_list (columns data) col = 1")
    case True
    with Cons.prems have "\<exists>c\<in>set cols. count_list (columns data) c \<noteq> 1" by auto
    with Cons.IH Cons.prems(1) have "\<And>acc. mark_columns data cols acc = Inl ValueError" by simp
    with True Cons.prems(1) show ?thesis by (simp add: getitem_def)
  next
    case False
    with Cons.prems(1) show ?thesis by (simp add: getitem_def)
  qed
qed

lemma select_features_repeated:
  "\<not> distinct (columns data) \<Longrightarrow> select_features data = Inl ValueError"
proof -
  assume "\<not> distinct (columns data)"
  then have "\<exists>c\<in>set (columns data). count_list (columns data) c \<noteq> 1"
    by (rule count_list_repeated)
  then have "mark_columns data (columns data) [] = Inl ValueError"
    by (intro mark_columns_repeated) simp_all
  then show ?thesis by (simp add: select_features_def)
qed

lemma select_features_distinct:
  assumes "distinct (columns data)"
  shows "select_features data =
     Inr (if filter (all_unique data) (columns data) = [] then data
          else keep_columns (\<lambda>c. c \<notin> set (filter (all_unique data) (columns data))) data)"
  using assms by (simp add: select_features_def mark_columns_distinct drop_columns_def)

lemma columns_keep_columns: "columns (keep_columns p data) = filter p (columns data)"
  by (simp add: keep_columns_def)

lemma select_features_columns:
  assumes "distinct (columns data)" "select_features data = Inr data'"
  shows "columns data' = filter (\<lambda>c. \<not> all_unique data c) (columns data)"
proof (cases "filter (all_unique data) (columns data) = []")
  case True
  then have "\<forall>c\<in>set (columns data). \<not> all_unique data c" by (simp add: filter_empty_conv)
  then have "filter (\<lambda>c. \<not> all_unique data c) (columns data) = columns data" by simp
  with True assms show ?thesis by (simp add: select_features_distinct)
next
  case False
  with assms have "data' = keep_columns (\<lambda>c. c \<notin> set (filter (all_unique data) (columns data))) data"
    by (simp add: select_features_distinct)
  then show ?thesis by (auto simp: columns_keep_columns intro: filter_cong)
qed

lemma nunique_eq_length:
  assumes "nunique s = length s"
  shows "distinct s \<and> NA \<notin> set s"
proof -
  have a: "length (remdups (filter notna s)) \<le> length (filter notna s)" by (rule length_remdups_leq)
  have b: "length (filter notna s) \<le> length s" by simp
  from assms a b have c: "length (filter notna s) = length s" and d: "length (remdups (filter notna s)) = length (filter notna s)"
    unfolding nunique_def by linarith+
  from c have e: "filter notna s = s" by (metis length_filter_less less_irrefl filter_True)
  with d have "distinct s" by (simp add: remdups_id_iff_distinct)
  moreover from e have "NA \<notin> set s" by (metis filter_id_conv notna_def)
  ultimately show ?thesis by simp
qed

text \<open>
  C5. For a table whose column labels are pairwise different, the feature selector
  succeeds; the columns of its output are among the columns of its input; the output
  holds exactly the input columns that fail the all-unique test on the input table,
  so that the removal of one column never changes the decision on another; and a
  column that holds some value twice (which takes at least two rows) is kept.
\<close>

theorem selector_keeps_subset_and_repeated_columns:
  assumes "distinct (columns data)"
  shows "\<exists>data'. select_features data = Inr data' \<and>
           set (columns data') \<subseteq> set (columns data) \<and>
           columns data' = filter (\<lambda>c. \<not> all_unique data c) (columns data) \<and>
           (\<forall>c\<in>set (columns data). \<not> distinct (series_of data c) \<longrightarrow> c \<in> set (columns data'))"
proof -
  from assms obtain data' where sel: "select_features data = Inr data'"
    by (simp add: select_features_distinct)
  have cols: "columns data' = filter (\<lambda>c. \<not> all_unique data c) (columns data)"
    using assms sel by (rule select_features_columns)
  have "\<not> all_unique data c" if "\<not> distinct (series_of data c)" for c
    using that nunique_eq_length [of "series_of data c"]
    by (auto simp: all_unique_def len_def series_of_def)
  with sel cols show ?thesis by auto
qed

theorem selector_keeps_subset_and_repeated_columns_witness:
  "distinct (columns (clean sample_table)) \<and>
   (\<exists>data'. select_features (clean sample_table) = Inr data' \<and>
      set (columns data') \<subseteq> set (columns (clean sample_table)) \<and>
      columns data' =
        filter (\<lambda>c. \<not> all_unique (clean sample_table) c) (columns (clean sample_table)) \<and>
      (\<forall>c\<in>set (columns (clean sample_table)).
         \<not> distinct (series_of (clean sample_table) c) \<longrightarrow> c \<in> set (columns data')))"
proof -
  have h: "distinct (columns (clean sample_table))"
    by (simp add: columns_clean sample_table_def)
  from h selector_keeps_subset_and_repeated_columns [OF h] show ?thesis by blast
qed



text \<open>
  C10. A column that holds the missing-marker in some row is kept by the selector,
  whatever its other values: the missing-marker is not counted among the different
  values, so their number stays below the number of rows.
\<close>

theorem selector_keeps_columns_with_missing:
  assumes "distinct (columns data)" "c \<in> set (columns data)" "NA \<in> set (series_of data c)"
  shows "\<exists>data'. select_features data = Inr data' \<and> c \<in> set (columns data')"
proof -
  from assms(1) obtain data' where sel: "select_features data = Inr data'"
    by (simp add: select_features_distinct)
  have "\<not> all_unique data c"
    using assms(3) nunique_eq_length [of "series_of data c"]
    by (auto simp: all_unique_def len_def series_of_def)
  with assms(2) sel select_features_columns [OF assms(1) sel] show ?thesis by simp
qed

theorem selector_keeps_columns_with_missing_witness:
  "distinct (columns (clean sample_table)) \<and> ''bytes'' \<in> set (columns (clean sample_table)) \<and>
   NA \<in> set (series_of (clean sample_table) ''bytes'') \<and>
   (\<exists>data'. select_features (clean sample_table) = Inr data' \<and> ''bytes'' \<in> set (columns data'))"
proof -
  have h1: "distinct (columns (clean sample_table))"
    by (simp add: columns_clean sample_table_def)
  have h2: "''bytes'' \<in> set (columns (clean sample_table))"
    by (simp add: columns_clean sample_table_def)
  have r: "rows (clean sample_table) =
      [(0, [Val 1, Val 80, Val 500, Val 0]), (1, [Val 2, Val 80, Val 600, Val 1]),
       (4, [Val 3, Val 443, NA, Val 0]), (5, [Val 4, Val 22, Val 700, Val 1])]"
    by (simp add: rows_clean sample_table_def notna_def)
  have h3: "NA \<in> set (series_of (clean sample_table) ''bytes'')"
    by (simp add: series_of_def r columns_clean) (simp add: sample_table_def)
  from h1 h2 h3 selector_keeps_columns_with_missing [OF h1 h2 h3] show ?thesis by blast
qed

section \<open>The splitter and the order of columns\<close>

lemma filter_zip_row:
  "length row = length cols \<Longrightarrow>
   length (filter (\<lambda>q. p (fst q)) (zip cols row)) = length (filter p cols)"
  by (induction cols row rule: list_induct2') auto

lemma wf_keep_columns: "wf_table data \<Longrightarrow> wf_table (keep_columns p data)"
  by (auto simp: wf_table_def keep_columns_def list_all_iff filter_zip_row)

lemma wf_clean: "wf_table data \<Longrightarrow> wf_table (clean data)"
  using keep_first_subset [of "[]" "filter (\<lambda>r. list_ex notna (snd r)) (rows data)"]
  by (auto simp: wf_table_def columns_clean rows_clean list_all_iff)

lemma wf_select_features:
  "wf_table data \<Longrightarrow> select_features data = Inr data' \<Longrightarrow> wf_table data'"
proof -
  assume wf: "wf_table data" and sel: "select_features data = Inr data'"
  from wf have "distinct (columns data)" by (simp add: wf_table_def)
  from sel [unfolded select_features_distinct [OF this]]
  have "data' = data \<or> (\<exists>p. data' = keep_columns p data)" by (auto split: if_splits)
  with wf show ?thesis by (auto simp: wf_keep_columns)
qed

lemma kept_cell:
  "length row = length cols \<Longrightarrow> distinct cols \<Longrightarrow> c \<in> set cols \<Longrightarrow> p c \<Longrightarrow>
   map snd (filter (\<lambda>q. p (fst q)) (zip cols row)) ! index_of c (filter p cols) =
   row ! index_of c cols"
  by (induction cols row rule: list_induct2') auto

lemma series_of_keep_columns:
  assumes "wf_table data" "c \<in> set (columns data)" "p c"
  shows "series_of (keep_columns p data) c = series_of data c"
  using assms
  by (auto simp: series_of_def keep_columns_def wf_table_def list_all_iff kept_cell)

lemma series_of_select_features:
  assumes "wf_table data" "select_features data = Inr data'" "c \<in> set (columns data')"
  shows "series_of data' c = series_of data c"
proof -
  from assms(1) have d: "distinct (columns data)" by (simp add: wf_table_def)
  from assms(3) have c: "c \<in> set (columns data)" "\<not> all_unique data c"
    using select_features_columns [OF d assms(2)] by auto
  show ?thesis
  proof (cases "filter (all_unique data) (columns data) = []")
    case True
    with d assms(2) show ?thesis by (simp add: select_features_distinct)
  next
    case False
    with d assms(2) have "data' = keep_columns (\<lambda>c. c \<notin> set (filter (all_unique data) (columns data))) data"
      by (simp add: select_features_distinct)
    with c assms(1) show ?thesis by (simp add: series_of_keep_columns)
  qed
qed

lemma index_of_last: "distinct cols \<Longrightarrow> cols \<noteq> [] \<Longrightarrow> index_of (last cols) cols = length cols - 1"
  by (induction cols) auto

lemma filter_last:
  assumes "distinct cols" "cols \<noteq> []"
  shows "filter (\<lambda>c. c \<noteq> last cols) cols = butlast cols"
proof -
  from assms obtain bs l where cols: "cols = bs @ [l]" by (metis append_butlast_last_id)
  with assms have "l \<notin> set bs" by simp
  then have "filter (\<lambda>c. c \<noteq> l) bs = bs" unfolding filter_id_conv by auto
  then show ?thesis by (simp add: cols)
qed

lemma drop_last_cell:
  assumes "distinct cols" "cols \<noteq> []" "length row = length cols"
  shows "map snd (filter (\<lambda>q. fst q \<noteq> last cols) (zip cols row)) = butlast row"
proof -
  from assms obtain bs l where cols: "cols = bs @ [l]" by (metis append_butlast_last_id)
  with assms have "row \<noteq> []" by auto
  then obtain rs x where row: "row = rs @ [x]" by (metis append_butlast_last_id)
  with cols assms have len: "length rs = length bs" by simp
  from cols assms have "l \<notin> set bs" by simp
  then have "filter (\<lambda>q. fst q \<noteq> l) (zip bs rs) = zip bs rs"
    unfolding filter_id_conv by (auto dest: set_zip_leftD)
  with len show ?thesis by (simp add: cols row)
qed

lemma series_of_last:
  assumes "wf_table data" "columns data \<noteq> []"
  shows "series_of data (last (columns data)) = map (last \<circ> snd) (rows data)"
proof -
  from assms have i: "index_of (last (columns data)) (columns data) = length (columns data) - 1"
    by (simp add: index_of_last wf_table_def)
  have "snd r ! (length (columns data) - 1) = last (snd r)" if "r \<in> set (rows data)" for r
  proof -
    from that assms have "length (snd r) = length (columns data)" "snd r \<noteq> []"
      by (auto simp: wf_table_def list_all_iff)
    then show ?thesis by (simp add: last_conv_nth)
  qed
  then show ?thesis by (simp add: series_of_def i)
qed

lemma drop_last_column:
  assumes "wf_table data" "columns data \<noteq> []"
  shows "\<exists>f. drop_columns data [last (columns data)] = Inr f \<and>
           columns f = butlast (columns data) \<and>
           map snd (rows f) = map (butlast \<circ> snd) (rows data)"
proof -
  let ?f = "keep_columns (\<lambda>c. c \<noteq> last (columns data)) data"
  from assms have d: "distinct (columns data)" by (simp add: wf_table_def)
  have a: "drop_columns data [last (columns data)] = Inr ?f"
    using assms(2) by (simp add: drop_columns_def)
  have b: "columns ?f = butlast (columns data)"
    using d assms(2) by (simp add: keep_columns_def filter_last)
  have c: "map snd (rows ?f) = map (butlast \<circ> snd) (rows data)"
    using d assms by (auto simp: keep_columns_def wf_table_def list_all_iff drop_last_cell)
  from a b c show ?thesis by blast
qed

lemma frame_values_rows:
  "map snd (rows f) = rs \<Longrightarrow> frame_values cast f = Matrix (length (columns f)) (map (map (cast f)) rs)"
  by (auto simp: frame_values_def)

lemma splitter_step_wf:
  assumes "wf_table data" "2 \<le> length (columns data)"
    "drop_columns data [last (columns data)] = Inr f"
  shows "splitter_step (Some data) st =
     (st\<lparr>ctx := (ctx st)
          (''X_data'' \<mapsto>
             PArray (Matrix (length (columns data) - 1)
                       (map (map (values_cast (world st) f) \<circ> butlast \<circ> snd) (rows data))),
           ''y_data'' \<mapsto> PArray (Vector (map (last \<circ> snd) (rows data))),
           ''target_column'' \<mapsto> PStr (last (columns data)))\<rparr>,
      Inr (Some data))"
proof -
  from assms have ne: "columns data \<noteq> []" and d: "distinct (columns data)"
    by (auto simp: wf_table_def)
  have g: "getitem data (last (columns data)) = Inr (Series (map (last \<circ> snd) (rows data)))"
    using ne d assms(1) by (simp add: getitem_distinct series_of_last)
  from drop_last_column [OF assms(1) ne] assms(3)
  have cf: "columns f = butlast (columns data)"
    and rf: "map snd (rows f) = map (butlast \<circ> snd) (rows data)"
    by auto
  have k: "frame_values (values_cast (world st)) f =
      Matrix (length (columns data) - 1)
        (map (map (values_cast (world st) f) \<circ> butlast \<circ> snd) (rows data))"
    by (simp add: frame_values_rows [OF rf] cf o_def)
  show ?thesis
    using assms(2) ne by (simp add: splitter_step_def g assms(3) k)
qed

lemma values_cast_sample:
  "values_cast sample_world f c = (case c of NA \<Rightarrow> NA | Val n \<Rightarrow> Val (2 * (n div 2)))"
  by (simp add: sample_world_def)

text \<open>
  C1. For a table with at least two columns (labels pairwise different, one cell per
  column in every row), the splitter succeeds and returns the table as it is. The
  features are the frame \<open>f\<close> without the last column; the feature matrix holds every
  row without its last cell, each cell converted to the common dtype of \<open>f\<close>; the
  target vector holds the last cell of every row; and the target column is the last
  label. So the matrix has as many rows as the table and as the target vector has
  entries, and one column less than the table.
\<close>

theorem splitter_shapes:
  assumes "wf_table data" "2 \<le> length (columns data)"
  shows "\<exists>f. drop_columns data [last (columns data)] = Inr f \<and>
           columns f = butlast (columns data) \<and>
           (let X = Matrix (length (columns data) - 1)
                      (map (map (values_cast (world st) f) \<circ> butlast \<circ> snd) (rows data));
                y = Vector (map (last \<circ> snd) (rows data))
            in splitter_step (Some data) st =
                 (st\<lparr>ctx := (ctx st)(''X_data'' \<mapsto> PArray X, ''y_data'' \<mapsto> PArray y,
                        ''target_column'' \<mapsto> PStr (last (columns data)))\<rparr>,
                  Inr (Some data)) \<and>
               array_shape X = [len data, length (columns data) - 1] \<and>
               array_shape y = [len data])"
proof -
  from assms have ne: "columns data \<noteq> []" by auto
  from drop_last_column [OF assms(1) ne] obtain f
    where f: "drop_columns data [last (columns data)] = Inr f"
      "columns f = butlast (columns data)"
    by blast
  from splitter_step_wf [OF assms f(1), of st] f show ?thesis
    by (intro exI [of _ f]) (simp add: Let_def len_def)
qed

theorem splitter_shapes_witness:
  "wf_table selected_sample \<and> 2 \<le> length (columns selected_sample) \<and>
   splitter_step (Some selected_sample) \<lparr>ctx = Map.empty, world = sample_world\<rparr> =
     (\<lparr>ctx = [''X_data'' \<mapsto>
               PArray (Matrix 2 [[Val 80, Val 500], [Val 80, Val 600], [Val 442, NA],
                                 [Val 22, Val 700]]),
             ''y_data'' \<mapsto> PArray (Vector [Val 0, Val 1, Val 0, Val 1]),
             ''target_column'' \<mapsto> PStr ''label''],
       world = sample_world\<rparr>,
      Inr (Some selected_sample))"
proof -
  have h1: "wf_table selected_sample" by (simp add: wf_table_def selected_sample_def)
  have h2: "2 \<le> length (columns selected_sample)" by (simp add: selected_sample_def)
  have r: "rows selected_sample =
      [(0, [Val 80, Val 500, Val 0]), (1, [Val 80, Val 600, Val 1]),
       (4, [Val 443, NA, Val 0]), (5, [Val 22, Val 700, Val 1])]"
    and c: "columns selected_sample = [''port'', ''bytes'', ''label'']"
    by (simp_all add: selected_sample_def)
  from splitter_shapes [OF h1 h2, of "\<lparr>ctx = Map.empty, world = sample_world\<rparr>"]
  have "splitter_step (Some selected_sample) \<lparr>ctx = Map.empty, world = sample_world\<rparr> =
     (\<lparr>ctx = [''X_data'' \<mapsto>
               PArray (Matrix 2 [[Val 80, Val 500], [Val 80, Val 600], [Val 442, NA],
                                 [Val 22, Val 700]]),
             ''y_data'' \<mapsto> PArray (Vector [Val 0, Val 1, Val 0, Val 1]),
             ''target_column'' \<mapsto> PStr ''label''],
       world = sample_world\<rparr>,
      Inr (Some selected_sample))"
    by (auto simp: Let_def r c numeral_2_eq_2 values_cast_sample)
  with h1 h2 show ?thesis by simp
qed

lemma sample_clean_rows: "rows (clean sample_table) =
      [(0, [Val 1, Val 80, Val 500, Val 0]), (1, [Val 2, Val 80, Val 600, Val 1]),
       (4, [Val 3, Val 443, NA, Val 0]), (5, [Val 4, Val 22, Val 700, Val 1])]"
  by (simp add: rows_clean sample_table_def notna_def)

lemma sample_clean: "clean sample_table = \<lparr>columns = [''id'', ''port'', ''bytes'', ''label''], rows =
      [(0, [Val 1, Val 80, Val 500, Val 0]), (1, [Val 2, Val 80, Val 600, Val 1]),
       (4, [Val 3, Val 443, NA, Val 0]), (5, [Val 4, Val 22, Val 700, Val 1])]\<rparr>"
  by (rule table.equality) (simp_all add: sample_clean_rows columns_clean, simp_all add: sample_table_def)

lemma sample_select: "select_features (clean sample_table) = Inr selected_sample"
  unfolding sample_clean selected_sample_def
  by (simp add: select_features_def getitem_def series_of_def nunique_def notna_def len_def
      drop_columns_def keep_columns_def)

lemma narrow_select: "select_features (clean narrow_sample) = Inr label_only_sample"
  by code_simp

lemma wf_selected_sample: "wf_table selected_sample"
  by (simp add: wf_table_def selected_sample_def)

lemma subseq_select_features:
  assumes "select_features data = Inr data'"
  shows "subseq (columns data') (columns data)"
proof (cases "distinct (columns data)")
  case True
  from select_features_columns [OF True assms] show ?thesis by simp
next
  case False
  with assms show ?thesis by (simp add: select_features_repeated)
qed

lemma stage_keeps_column_order:
  assumes "h \<in> set pipeline" "h (Some d) st = (st', Inr (Some d'))"
  shows "subseq (columns d') (columns d)"
proof -
  from assms(1) consider "h = loader_step" | "h = cleaner_step" | "h = selector_step"
    | "h = splitter_step" | "h = saver_step"
    by (auto simp: pipeline_def)
  then show ?thesis
  proof cases
    case 1
    with assms(2) show ?thesis by (simp add: loader_step_def)
  next
    case 2
    with assms(2) show ?thesis by (auto simp: cleaner_step_def Let_def columns_clean)
  next
    case 3
    with assms(2) show ?thesis
      by (auto simp: selector_step_def subseq_select_features split: sum.splits)
  next
    case 4
    with assms(2) show ?thesis
      by (auto simp: splitter_step_def Let_def split: sum.splits if_splits)
  next
    case 5
    with assms(2) show ?thesis
      by (auto simp: saver_step_def Let_def split: sum.splits option.splits prod.splits)
  qed
qed

text \<open>
  C8. The cleaner leaves the columns as they are. The columns after feature selection
  are among the columns after cleaning, in the same relative order, each with the
  values it had. The feature matrix holds the columns of the table in the table's
  order: every row without its last cell, each cell converted to the common dtype of
  the feature frame. And every stage that is given a table and returns one returns its
  columns in the relative order of its input.
\<close>

theorem stages_keep_column_order:
  assumes "wf_table data" "select_features (clean data) = Inr data'"
  shows "columns (clean data) = columns data \<and>
         set (columns data') \<subseteq> set (columns (clean data)) \<and>
         subseq (columns data') (columns (clean data)) \<and>
         (\<forall>c\<in>set (columns data'). series_of data' c = series_of (clean data) c) \<and>
         (2 \<le> length (columns data') \<longrightarrow>
            (\<exists>f. drop_columns data' [last (columns data')] = Inr f \<and>
               columns f = butlast (columns data') \<and>
               ctx (fst (splitter_step (Some data') st)) ''X_data'' =
                 Some (PArray (Matrix (length (columns data') - 1)
                         (map (map (values_cast (world st) f) \<circ> butlast \<circ> snd) (rows data')))))) \<and>
         (\<forall>h\<in>set pipeline. \<forall>d s s' d'. h (Some d) s = (s', Inr (Some d')) \<longrightarrow>
            subseq (columns d') (columns d))"
proof -
  have wc: "wf_table (clean data)" using assms(1) by (rule wf_clean)
  have w': "wf_table data'" using wc assms(2) by (rule wf_select_features)
  have s: "subseq (columns data') (columns (clean data))"
    using assms(2) by (rule subseq_select_features)
  then have sub: "set (columns data') \<subseteq> set (columns (clean data))"
    by (auto dest: list_emb_set)
  have ser: "\<forall>c\<in>set (columns data'). series_of data' c = series_of (clean data) c"
    using series_of_select_features [OF wc assms(2)] by blast
  have spl: "\<exists>f. drop_columns data' [last (columns data')] = Inr f \<and>
      columns f = butlast (columns data') \<and>
      ctx (fst (splitter_step (Some data') st)) ''X_data'' =
        Some (PArray (Matrix (length (columns data') - 1)
                (map (map (values_cast (world st) f) \<circ> butlast \<circ> snd) (rows data'))))"
    if n: "2 \<le> length (columns data')"
  proof -
    from n have ne: "columns data' \<noteq> []" by auto
    from drop_last_column [OF w' ne] obtain f
      where f: "drop_columns data' [last (columns data')] = Inr f"
        "columns f = butlast (columns data')"
      by blast
    have "ctx (fst (splitter_step (Some data') st)) ''X_data'' =
        Some (PArray (Matrix (length (columns data') - 1)
                (map (map (values_cast (world st) f) \<circ> butlast \<circ> snd) (rows data'))))"
      by (simp add: splitter_step_wf [OF w' n f(1)])
    with f show ?thesis by blast
  qed
  have ord: "\<forall>h\<in>set pipeline. \<forall>d s s' d'. h (Some d) s = (s', Inr (Some d')) \<longrightarrow>
      subseq (columns d') (columns d)"
    using stage_keeps_column_order by blast
  from s sub ser spl ord show ?thesis by (simp add: columns_clean)
qed

theorem stages_keep_column_order_witness:
  "wf_table sample_table \<and> select_features (clean sample_table) = Inr selected_sample \<and>
   columns (clean sample_table) = columns sample_table \<and>
   subseq (columns selected_sample) (columns (clean sample_table)) \<and>
   ''port'' \<in> set (columns selected_sample) \<and>
   series_of selected_sample ''port'' = series_of (clean sample_table) ''port'' \<and>
   2 \<le> length (columns selected_sample) \<and>
   ctx (fst (splitter_step (Some selected_sample) \<lparr>ctx = Map.empty, world = sample_world\<rparr>))
     ''X_data'' =
     Some (PArray (Matrix 2 [[Val 80, Val 500], [Val 80, Val 600], [Val 442, NA],
                             [Val 22, Val 700]])) \<and>
   (cleaner_step :: int handler) \<in> set pipeline"
proof -
  have h1: "wf_table sample_table" by (simp add: wf_table_def sample_table_def)
  have h2: "select_features (clean sample_table) = Inr selected_sample" by (rule sample_select)
  have p: "''port'' \<in> set (columns selected_sample)" by (simp add: selected_sample_def)
  have n: "2 \<le> length (columns selected_sample)" by (simp add: selected_sample_def)
  have q: "(cleaner_step :: int handler) \<in> set pipeline" by (simp add: pipeline_def)
  note t = stages_keep_column_order
         [OF h1 h2, of "\<lparr>ctx = Map.empty, world = sample_world\<rparr>"]
  from t have a: "columns (clean sample_table) = columns sample_table" by (elim conjE)
  from t have b: "subseq (columns selected_sample) (columns (clean sample_table))"
    by (elim conjE)
  from t have "\<forall>c\<in>set (columns selected_sample).
      series_of selected_sample c = series_of (clean sample_table) c"
    by (elim conjE)
  with p have c: "series_of selected_sample ''port'' = series_of (clean sample_table) ''port''"
    by simp
  from t have "2 \<le> length (columns selected_sample) \<longrightarrow>
      (\<exists>f. drop_columns selected_sample [last (columns selected_sample)] = Inr f \<and>
         columns f = butlast (columns selected_sample) \<and>
         ctx (fst (splitter_step (Some selected_sample)
                 \<lparr>ctx = Map.empty, world = sample_world\<rparr>)) ''X_data'' =
           Some (PArray (Matrix (length (columns selected_sample) - 1)
                   (map (map (values_cast (world \<lparr>ctx = Map.empty, world = sample_world\<rparr>) f)
                         \<circ> butlast \<circ> snd) (rows selected_sample)))))"
    by (elim conjE)
  with n obtain f where "ctx (fst (splitter_step (Some selected_sample)
        \<lparr>ctx = Map.empty, world = sample_world\<rparr>)) ''X_data'' =
        Some (PArray (Matrix (length (columns selected_sample) - 1)
                (map (map (values_cast sample_world f) \<circ> butlast \<circ> snd)
                   (rows selected_sample))))"
    by auto
  then have d: "ctx (fst (splitter_step (Some selected_sample)
        \<lparr>ctx = Map.empty, world = sample_world\<rparr>)) ''X_data'' =
      Some (PArray (Matrix 2 [[Val 80, Val 500], [Val 80, Val 600], [Val 442, NA],
                              [Val 22, Val 700]]))"
    by (simp add: selected_sample_def values_cast_sample)
  show ?thesis by (intro conjI h1 h2 a b p c n d q)
qed

section \<open>Failures\<close>

lemma run_to_splitter:
  assumes "csv_files w file_path = Some d0" "select_features (clean d0) = Inr d"
  shows "handle pipeline None \<lparr>ctx = initial_context file_path output_dir, world = w\<rparr> =
     handle [splitter_step, saver_step] (Some d)
       \<lparr>ctx = (initial_context file_path output_dir)
          (''original_shape'' \<mapsto> PShape (shape d0),
           ''cleaned_shape'' \<mapsto> PShape (shape (clean d0)),
           ''selected_features'' \<mapsto> PNames (columns d)),
        world = w\<rparr>"
  using assms
  by (simp add: pipeline_def loader_step_def cleaner_step_def selector_step_def
      initial_context_def Let_def)

lemma splitter_step_narrow:
  "length (columns data) < 2 \<Longrightarrow> splitter_step (Some data) st = (st, Inl ValueError)"
  by (simp add: splitter_step_def)

text \<open>
  C2. On a table with fewer than two columns the splitter raises ValueError and
  changes nothing; the exception leaves the chain before the saver runs; and a run of
  the pipeline in which such a table reaches the splitter ends with exit status 1 and
  the world as it was, so that no file is written.
\<close>

theorem splitter_structural_failure:
  assumes "length (columns data) < 2"
  shows "splitter_step (Some data) st = (st, Inl ValueError) \<and>
         handle [splitter_step, saver_step] (Some data) st = (st, Inl ValueError) \<and>
         (\<forall>w file_path output_dir d0.
            csv_files w file_path = Some d0 \<and> select_features (clean d0) = Inr data \<longrightarrow>
            (\<exists>st' r. process w file_path output_dir = (st', r) \<and> world st' = w \<and>
               r = Inl (SystemExit 1) \<and> exit_status r = 1))"
proof -
  have a: "splitter_step (Some data) st = (st, Inl ValueError)" for st :: "'a state"
    using assms by (rule splitter_step_narrow)
  have b: "handle [splitter_step, saver_step] (Some data) st = (st, Inl ValueError)"
    for st :: "'a state"
    by (simp add: a)
  have c: "\<exists>st' r. process w file_path output_dir = (st', r) \<and> world st' = w \<and>
               r = Inl (SystemExit 1) \<and> exit_status r = 1"
    if "csv_files w file_path = Some d0" "select_features (clean d0) = Inr data"
    for w file_path output_dir d0
    by (simp add: process_def run_to_splitter [OF that] a)
  from a b c show ?thesis by blast
qed

theorem splitter_structural_failure_witness:
  "length (columns label_only_sample) < 2 \<and>
   csv_files sample_world ''narrow.csv'' = Some narrow_sample \<and>
   select_features (clean narrow_sample) = Inr label_only_sample \<and>
   splitter_step (Some label_only_sample) \<lparr>ctx = Map.empty, world = sample_world\<rparr> =
     (\<lparr>ctx = Map.empty, world = sample_world\<rparr>, Inl ValueError) \<and>
   (\<exists>st' r. process sample_world ''narrow.csv'' ''out'' = (st', r) \<and> world st' = sample_world \<and>
      r = Inl (SystemExit 1) \<and> exit_status r = 1)"
proof -
  have h: "length (columns label_only_sample) < 2" by (simp add: label_only_sample_def)
  have f: "csv_files sample_world ''narrow.csv'' = Some narrow_sample"
    by (simp add: sample_world_def)
  have g: "select_features (clean narrow_sample) = Inr label_only_sample" by (rule narrow_select)
  from splitter_structural_failure [OF h, of "\<lparr>ctx = Map.empty, world = sample_world\<rparr>"] h f g
  show ?thesis by blast
qed

lemma saver_step_second_write_fails:
  assumes "ctx st ''output_dir'' = Some (PStr dir)" "ctx st ''X_data'' = Some X"
    "ctx st ''y_data'' = Some y" "writable (world st) (dir @ ''/x_data.npy'')"
    "\<not> writable (world st) (dir @ ''/y_data.npy'')"
  shows "saver_step data st =
     (st\<lparr>world := failed_save (dir @ ''/y_data.npy'')
          ((world st)\<lparr>npy_files := (npy_files (world st))(dir @ ''/x_data.npy'' \<mapsto> Saved X)\<rparr>)\<rparr>,
      Inl (SystemExit 1))"
  using assms by (simp add: saver_step_def np_save_def)

lemma saver_step_first_write_fails:
  assumes "ctx st ''output_dir'' = Some (PStr dir)" "ctx st ''X_data'' = Some X"
    "\<not> writable (world st) (dir @ ''/x_data.npy'')"
  shows "saver_step data st =
     (st\<lparr>world := failed_save (dir @ ''/x_data.npy'') (world st)\<rparr>, Inl (SystemExit 1))"
  using assms by (simp add: saver_step_def np_save_def)

text \<open>
  C9. In a run that reaches the saver, when one of the two writes fails the run ends
  with exit status 1. Nothing is rolled back: when the feature file was written, it
  stays, holding the feature matrix, and the target file is as its failed write left
  it; when the write of the feature file fails, that file is as the failed write left
  it. Every other file is as before the run.
\<close>

theorem saver_failure_keeps_written_file:
  assumes "csv_files w file_path = Some d0" "select_features (clean d0) = Inr d"
    "wf_table d" "2 \<le> length (columns d)"
    "\<not> (writable w (output_dir @ ''/x_data.npy'') \<and> writable w (output_dir @ ''/y_data.npy''))"
  shows "\<exists>st' r f. process w file_path output_dir = (st', r) \<and> exit_status r = 1 \<and>
           drop_columns d [last (columns d)] = Inr f \<and>
           (let x = output_dir @ ''/x_data.npy'';
                y = output_dir @ ''/y_data.npy'';
                X = PArray (Matrix (length (columns d) - 1)
                      (map (map (values_cast w f) \<circ> butlast \<circ> snd) (rows d)))
            in world st' =
                 (if writable w x
                  then failed_save y (w\<lparr>npy_files := (npy_files w)(x \<mapsto> Saved X)\<rparr>)
                  else failed_save x w) \<and>
               (writable w x \<longrightarrow> npy_files (world st') x = Some (Saved X)) \<and>
               (\<forall>p. p \<noteq> x \<and> p \<noteq> y \<longrightarrow> npy_files (world st') p = npy_files w p))"
proof -
  from assms(4) have ne: "columns d \<noteq> []" by auto
  from drop_last_column [OF assms(3) ne] obtain f
    where f: "drop_columns d [last (columns d)] = Inr f" by blast
  let ?x = "output_dir @ ''/x_data.npy''"
  let ?y = "output_dir @ ''/y_data.npy''"
  let ?X = "PArray (Matrix (length (columns d) - 1)
              (map (map (values_cast w f) \<circ> butlast \<circ> snd) (rows d))) :: 'a pyvalue"
  let ?Y = "PArray (Vector (map (last \<circ> snd) (rows d))) :: 'a pyvalue"
  let ?st = "\<lparr>ctx = (initial_context file_path output_dir)
          (''original_shape'' \<mapsto> PShape (shape d0),
           ''cleaned_shape'' \<mapsto> PShape (shape (clean d0)),
           ''selected_features'' \<mapsto> PNames (columns d),
           ''X_data'' \<mapsto> ?X, ''y_data'' \<mapsto> ?Y,
           ''target_column'' \<mapsto> PStr (last (columns d))),
        world = w\<rparr>"
  have run: "handle pipeline None \<lparr>ctx = initial_context file_path output_dir, world = w\<rparr> =
      (case saver_step (Some d) ?st of
         (st', Inl e) \<Rightarrow> (st', Inl e) | (st', Inr data') \<Rightarrow> (st', Inr data'))"
    by (simp add: run_to_splitter [OF assms(1,2)] splitter_step_wf [OF assms(3,4) f])
  have dir: "ctx ?st ''output_dir'' = Some (PStr output_dir)"
    and x: "ctx ?st ''X_data'' = Some ?X" and y: "ctx ?st ''y_data'' = Some ?Y"
    by (simp_all add: initial_context_def)
  show ?thesis
  proof (cases "writable w ?x")
    case False
    then have "\<not> writable (world ?st) ?x" by simp
    from saver_step_first_write_fails [OF dir x this]
    have "process w file_path output_dir =
        (?st\<lparr>world := failed_save ?x w\<rparr>, Inl (SystemExit 1))"
      by (simp add: process_def run)
    with False f show ?thesis by (simp add: Let_def failed_save_def)
  next
    case True
    with assms(5) have "writable (world ?st) ?x" "\<not> writable (world ?st) ?y" by simp_all
    from saver_step_second_write_fails [OF dir x y this]
    have "process w file_path output_dir =
        (?st\<lparr>world := failed_save ?y (w\<lparr>npy_files := (npy_files w)(?x \<mapsto> Saved ?X)\<rparr>)\<rparr>,
         Inl (SystemExit 1))"
      by (simp add: process_def run)
    with True f show ?thesis by (simp add: Let_def failed_save_def)
  qed
qed

theorem saver_failure_keeps_written_file_witness:
  "csv_files sample_world ''flows.csv'' = Some sample_table \<and>
   select_features (clean sample_table) = Inr selected_sample \<and>
   wf_table selected_sample \<and> 2 \<le> length (columns selected_sample) \<and>
   \<not> (writable sample_world (''out'' @ ''/x_data.npy'') \<and>
      writable sample_world (''out'' @ ''/y_data.npy'')) \<and>
   writable sample_world (''out'' @ ''/x_data.npy'') \<and>
   (\<exists>st' r. process sample_world ''flows.csv'' ''out'' = (st', r) \<and> exit_status r = 1 \<and>
      npy_files (world st') ''out/x_data.npy'' =
        Some (Saved (PArray (Matrix 2 [[Val 80, Val 500], [Val 80, Val 600], [Val 442, NA],
                                       [Val 22, Val 700]]))) \<and>
      npy_files (world st') ''out/y_data.npy'' = Some Damaged \<and>
      npy_files (world st') ''out/other.npy'' = None)"
proof -
  have h1: "csv_files sample_world ''flows.csv'' = Some sample_table"
    by (simp add: sample_world_def)
  have h2: "select_features (clean sample_table) = Inr selected_sample" by (rule sample_select)
  have h3: "wf_table selected_sample" by (rule wf_selected_sample)
  have h4: "2 \<le> length (columns selected_sample)" by (simp add: selected_sample_def)
  have h5: "\<not> (writable sample_world (''out'' @ ''/x_data.npy'') \<and>
      writable sample_world (''out'' @ ''/y_data.npy''))"
    by (simp add: sample_world_def)
  have x: "writable sample_world (''out'' @ ''/x_data.npy'')" by (simp add: sample_world_def)
  from saver_failure_keeps_written_file [OF h1 h2 h3 h4 h5]
  obtain st' r f where run: "process sample_world ''flows.csv'' ''out'' = (st', r)"
    "exit_status r = 1"
    and w: "world st' =
      (if writable sample_world (''out'' @ ''/x_data.npy'')
       then failed_save (''out'' @ ''/y_data.npy'')
              (sample_world\<lparr>npy_files := (npy_files sample_world)
                 (''out'' @ ''/x_data.npy'' \<mapsto>
                    Saved (PArray (Matrix (length (columns selected_sample) - 1)
                      (map (map (values_cast sample_world f) \<circ> butlast \<circ> snd)
                         (rows selected_sample)))))\<rparr>)
       else failed_save (''out'' @ ''/x_data.npy'') sample_world)"
    unfolding Let_def by blast
  have a: "npy_files (world st') ''out/x_data.npy'' =
      Some (Saved (PArray (Matrix 2 [[Val 80, Val 500], [Val 80, Val 600], [Val 442, NA],
                                     [Val 22, Val 700]])))"
    using x by (simp add: w failed_save_def) (simp add: selected_sample_def values_cast_sample)
  have b: "npy_files (world st') ''out/y_data.npy'' = Some Damaged"
    using x by (simp add: w failed_save_def) (simp add: sample_world_def)
  have c: "npy_files (world st') ''out/other.npy'' = None"
    using x by (simp add: w failed_save_def) (simp add: sample_world_def)
  from run a b c h1 h2 h3 h4 h5 x show ?thesis by blast
qed

section \<open>The metadata bag\<close>

lemma map_le_fresh:
  assumes "\<And>k. k \<notin> K \<Longrightarrow> c' k = c k" "dom c \<inter> K = {}"
  shows "c \<subseteq>\<^sub>m c'"
  unfolding map_le_def
proof
  fix a assume "a \<in> dom c"
  with assms(2) have "a \<notin> K" by auto
  then show "c a = c' a" by (simp add: assms(1))
qed

lemma dom_fresh:
  assumes "\<And>k. k \<notin> K \<Longrightarrow> c' k = c k"
  shows "dom c' \<subseteq> dom c \<union> K"
proof
  fix k assume k: "k \<in> dom c'"
  show "k \<in> dom c \<union> K"
  proof (cases "k \<in> K")
    case False
    with assms have "c' k = c k" by simp
    with k show ?thesis by (auto simp: dom_def)
  qed simp
qed

lemma contexts_append_only:
  assumes "list_all2 (\<lambda>h K. \<forall>data st k. k \<notin> K \<longrightarrow> ctx (fst (h data st)) k = ctx st k) hs Ks"
    "sorted_wrt (\<lambda>A B. A \<inter> B = {}) Ks" "dom (ctx st) \<inter> \<Union>(set Ks) = {}"
  shows "sorted_wrt (\<subseteq>\<^sub>m) (ctx st # contexts hs data st)"
  using assms
proof (induction hs Ks arbitrary: data st rule: list_all2_induct)
  case Nil
  show ?case by simp
next
  case (Cons h hs K Ks)
  obtain st1 r where step: "h data st = (st1, r)" by (cases "h data st")
  from Cons.hyps(1) step have only: "\<And>k. k \<notin> K \<Longrightarrow> ctx st1 k = ctx st k"
    by (metis fst_conv)
  from Cons.prems(2) have "dom (ctx st) \<inter> K = {}" by auto
  with only have le: "ctx st \<subseteq>\<^sub>m ctx st1" by (rule map_le_fresh)
  show ?case
  proof (cases r)
    case (Inl e)
    with step le show ?thesis by simp
  next
    case (Inr data')
    from dom_fresh [of K "ctx st1" "ctx st"] only have "dom (ctx st1) \<subseteq> dom (ctx st) \<union> K" by simp
    moreover from Cons.prems have "K \<inter> \<Union>(set Ks) = {}" "dom (ctx st) \<inter> \<Union>(set Ks) = {}"
      by auto
    ultimately have "dom (ctx st1) \<inter> \<Union>(set Ks) = {}" by blast
    with Cons.IH [of st1 data'] Cons.prems(1)
    have "sorted_wrt (\<subseteq>\<^sub>m) (ctx st1 # contexts hs data' st1)" by simp
    with le step Inr show ?thesis by (auto intro: map_le_trans)
  qed
qed

lemma handle_last_context:
  "ctx (fst (handle hs data st)) = last (ctx st # contexts hs data st)"
proof (induction hs arbitrary: data st)
  case Nil
  show ?case by simp
next
  case (Cons h hs)
  obtain st1 r where step: "h data st = (st1, r)" by (cases "h data st")
  show ?case
  proof (cases r)
    case (Inl e)
    with step show ?thesis by simp
  next
    case (Inr data')
    with step Cons.IH [of data' st1] show ?thesis by simp
  qed
qed

lemma loader_writes: "k \<noteq> ''original_shape'' \<Longrightarrow> ctx (fst (loader_step data st)) k = ctx st k"
  by (simp add: loader_step_def split: option.splits pyvalue.splits)

lemma cleaner_writes: "k \<noteq> ''cleaned_shape'' \<Longrightarrow> ctx (fst (cleaner_step data st)) k = ctx st k"
  by (simp add: cleaner_step_def Let_def split: option.splits)

lemma selector_writes:
  "k \<noteq> ''selected_features'' \<Longrightarrow> ctx (fst (selector_step data st)) k = ctx st k"
  by (simp add: selector_step_def split: option.splits sum.splits)

lemma splitter_writes:
  "k \<notin> {''X_data'', ''y_data'', ''target_column''} \<Longrightarrow>
   ctx (fst (splitter_step data st)) k = ctx st k"
  by (simp add: splitter_step_def Let_def split: option.splits sum.splits)

lemma saver_writes: "ctx (fst (saver_step data st)) k = ctx st k"
  by (simp add: saver_step_def Let_def split: option.splits sum.splits prod.splits)

text \<open>
  C7, as the specification states it: the metadata bag is created empty at pipeline
  start. It is not: \<open>process\<close> creates it with the input path and the output
  directory in it.
\<close>

theorem context_created_empty_counterexample:
  "initial_context ''flows.csv'' ''.'' \<noteq> (Map.empty :: int context_dict)"
proof
  assume "initial_context ''flows.csv'' ''.'' = (Map.empty :: int context_dict)"
  then have "initial_context ''flows.csv'' ''.'' ''file_path'' = (None :: int pyvalue option)" by simp
  then show False by (simp add: initial_context_def)
qed

text \<open>
  C7, amended. At pipeline start the metadata bag holds exactly the keys
  \<open>file_path\<close> and \<open>output_dir\<close>. In a run, the bag as any stage leaves it
  extends the bag as it was at the start and after every earlier stage: no key is
  removed and no value stored earlier is replaced. The bag that \<open>process\<close> ends
  with is the last of these.
\<close>

theorem context_append_only:
  "dom (initial_context file_path output_dir) = {''file_path'', ''output_dir''} \<and>
   sorted_wrt (\<subseteq>\<^sub>m)
     (initial_context file_path output_dir #
      contexts pipeline None \<lparr>ctx = initial_context file_path output_dir, world = w\<rparr>) \<and>
   ctx (fst (process w file_path output_dir)) =
     last (initial_context file_path output_dir #
           contexts pipeline None \<lparr>ctx = initial_context file_path output_dir, world = w\<rparr>)"
proof -
  let ?st = "\<lparr>ctx = initial_context file_path output_dir, world = w\<rparr>"
  let ?Ks = "[{''original_shape''}, {''cleaned_shape''}, {''selected_features''},
              {''X_data'', ''y_data'', ''target_column''}, {}]"
  have d: "dom (initial_context file_path output_dir) = {''file_path'', ''output_dir''}"
    by (auto simp: initial_context_def)
  have a: "list_all2 (\<lambda>h K. \<forall>data st k. k \<notin> K \<longrightarrow> ctx (fst (h data st)) k = ctx st k)
      pipeline ?Ks"
    unfolding pipeline_def
    by (simp add: loader_writes cleaner_writes selector_writes splitter_writes saver_writes)
  have b: "sorted_wrt (\<lambda>A B. A \<inter> B = {}) ?Ks" by simp
  have c: "dom (ctx ?st) \<inter> \<Union>(set ?Ks) = {}" by (simp add: d)
  from contexts_append_only [OF a b c]
  have s: "sorted_wrt (\<subseteq>\<^sub>m) (initial_context file_path output_dir # contexts pipeline None ?st)"
    by simp
  have "ctx (fst (process w file_path output_dir)) = ctx (fst (handle pipeline None ?st))"
    by (simp add: process_def split: prod.splits sum.splits)
  with handle_last_context [of pipeline None ?st] d s show ?thesis by simp
qed

end
